theory Spec2Isabelle
  imports Main "HOL-Library.Multiset" "HOL-Library.FSet"
begin

section \<open>Errors raised by the utilities of \<open>wall/util.py\<close>\<close>

text \<open>
  The exceptions the module raises itself are values: \<open>ValueError\<close> with its message
  (\<open>remove_event_listener\<close>, and \<open>list.remove\<close> inside \<open>Pool.finish\<close>), \<open>KeyError\<close>
  (\<open>RedisContainer.__getitem__\<close>) and \<open>RuntimeError\<close> with its message (the iterator of
  the set inside \<open>dispatch_event\<close>). An operation returns its outcome together with the
  state it leaves behind, so that what a failing call did to the state is visible.
\<close>

datatype error = ValueError string | KeyError | RuntimeError string

section \<open>Pool: keeping track of a pool of asynchronous tasks\<close>

text \<open>
  \<open>Pool\<close> holds \<open>tasks\<close>, a Python list, and \<open>callback\<close>. The callback is supplied by the
  caller; the model counts its invocations in \<open>fired\<close>. The method \<open>done\<close> is \<open>pool_done\<close>
  here.
\<close>

record 't Pool =
  tasks :: "'t list"
  fired :: nat

text \<open>
  Python's \<open>list.remove(x)\<close>: deletes the first element equal to \<open>x\<close> and raises
  \<open>ValueError\<close> when there is none.
\<close>

fun list_remove :: "'t list \<Rightarrow> 't \<Rightarrow> error + 't list" where
  "list_remove [] x = Inl (ValueError ''list.remove(x): x not in list'')"
| "list_remove (y # ys) x =
     (if y = x then Inr ys
      else (case list_remove ys x of Inl e \<Rightarrow> Inl e | Inr zs \<Rightarrow> Inr (y # zs)))"

definition pool_done :: "'t Pool \<Rightarrow> bool" where
  "pool_done self = (tasks self = [])"

definition callback :: "'t Pool \<Rightarrow> 't Pool" where
  "callback self = self\<lparr>fired := fired self + 1\<rparr>"

definition Pool_init :: "'t list \<Rightarrow> 't Pool" where
  "Pool_init ts =
     (let self = \<lparr>tasks = ts, fired = 0\<rparr>
      in if pool_done self then callback self else self)"

definition finish :: "'t Pool \<Rightarrow> 't \<Rightarrow> (error + unit) \<times> 't Pool" where
  "finish self task =
     (case list_remove (tasks self) task of
        Inl e \<Rightarrow> (Inl e, self)
      | Inr ts \<Rightarrow>
          (let self' = self\<lparr>tasks := ts\<rparr>
           in if pool_done self' then (Inr (), callback self') else (Inr (), self')))"

text \<open>
  A caller's sequence of \<open>finish\<close> calls, each outcome recorded; a failed call leaves the
  pool as it was and the caller goes on.
\<close>

fun finish_all :: "'t Pool \<Rightarrow> 't list \<Rightarrow> (error + unit) list \<times> 't Pool" where
  "finish_all self [] = ([], self)"
| "finish_all self (t # ts) =
     (case finish self t of
        (res, self1) \<Rightarrow> (case finish_all self1 ts of (rs, self2) \<Rightarrow> (res # rs, self2)))"

text \<open>
  The state a pool is in between calls: the callback has been invoked once if the list is
  empty, and not at all otherwise.
\<close>

definition pool_inv :: "'t Pool \<Rightarrow> bool" where
  "pool_inv self = (fired self = (if tasks self = [] then 1 else 0))"

section \<open>EventTarget and Event\<close>

text \<open>
  Python objects are compared by identity; an identity is a number (\<open>id(object)\<close>).
\<close>

type_synonym ref = nat



text \<open>
  An \<open>EventTarget\<close> owns \<open>_event_listeners\<close>, a dictionary from event type to a Python set
  of listeners. \<open>self_ref\<close> is the identity of the target itself, which \<open>dispatch_event\<close>
  stores in the event.
\<close>

record 'l EventTarget =
  self_ref :: ref
  event_listeners :: "string \<rightharpoonup> 'l fset"

definition EventTarget_init :: "ref \<Rightarrow> 'l EventTarget" where
  "EventTarget_init i = \<lparr>self_ref = i, event_listeners = Map.empty\<rparr>"


definition add_event_listener :: "'l EventTarget \<Rightarrow> string \<Rightarrow> 'l \<Rightarrow> 'l EventTarget" where
  "add_event_listener self ty listener =
     (let self1 = (if event_listeners self ty = None
                   then self\<lparr>event_listeners := (event_listeners self)(ty \<mapsto> {||})\<rparr>
                   else self)
      in (case event_listeners self1 ty of
            None \<Rightarrow> self1
          | Some ls \<Rightarrow>
              self1\<lparr>event_listeners := (event_listeners self1)(ty \<mapsto> finsert listener ls)\<rparr>))"







section \<open>ObjectRedis: objects decoded from Redis hashes, with an object cache\<close>

text \<open>
  The Redis database as far as the module uses it: a hash per key (\<open>hgetall\<close> returns the
  empty dictionary for a key without hash; Redis keeps no empty hashes) and a set per key
  (empty for a key without set). The client is taken to be connected: a command returns.
  \<open>commands\<close> is the trace of the commands sent, oldest first; it is what "store access"
  means below.
\<close>

type_synonym key = string

type_synonym hash = "(string \<times> string) list"

datatype command = HGETALL key | SISMEMBER key key | DEL key

record StrictRedis =
  hashes :: "key \<Rightarrow> hash"
  sets :: "key \<Rightarrow> key fset"
  commands :: "command list"

definition hgetall :: "key \<Rightarrow> StrictRedis \<Rightarrow> hash \<times> StrictRedis" where
  "hgetall k db = (hashes db k, db\<lparr>commands := commands db @ [HGETALL k]\<rparr>)"

definition sismember :: "key \<Rightarrow> key \<Rightarrow> StrictRedis \<Rightarrow> bool \<times> StrictRedis" where
  "sismember name item db =
     (item |\<in>| sets db name, db\<lparr>commands := commands db @ [SISMEMBER name item]\<rparr>)"

text \<open>
  Redis \<open>DEL\<close>, which a caller reaches as \<open>delete\<close> through \<open>ObjectRedis.__getattr__\<close>: the
  key loses its value, hash or set.
\<close>

definition redis_delete :: "key \<Rightarrow> StrictRedis \<Rightarrow> StrictRedis" where
  "redis_delete k db =
     db\<lparr>hashes := (hashes db)(k := []), sets := (sets db)(k := {||}),
        commands := commands db @ [DEL k]\<rparr>"

text \<open>
  An object: its identity and its value. \<open>decode\<close> is the caller's function from a hash to
  an object, and \<open>oget\<close> returns the very object \<open>decode\<close> returns. Whether that is a new
  object is up to \<open>decode\<close>: it is given the next free identity of the interpreter,
  \<open>next_id\<close>, and returns the object together with the next free identity after the call.
  A constructor, as \<open>Ship(**hash)\<close> of the module's tests, takes a new identity
  (\<open>construct\<close>); a function that hands out an object it already has returns that object
  and leaves \<open>next_id\<close> as it is. \<open>builds_new\<close> says that every call returns an object that
  did not exist before the call.

  \<open>truth\<close> is Python's truth value of a decoded value, which \<open>not object\<close> tests: an
  instance is true unless its class defines \<open>__nonzero__\<close> or \<open>__len__\<close> and that returns
  \<open>False\<close> or \<open>0\<close>. \<open>None\<close> is false.

  \<open>cache\<close> is the \<open>WeakValueDictionary\<close>: it holds an entry as long as the object is
  referenced elsewhere; \<open>destroy\<close> is what happens when the last such reference goes.
\<close>

record 'v pyobject =
  oid :: ref
  val :: 'v

definition construct :: "(hash \<Rightarrow> 'v) \<Rightarrow> hash \<Rightarrow> ref \<Rightarrow> 'v pyobject \<times> ref" where
  "construct f hash n = (\<lparr>oid = n, val = f hash\<rparr>, Suc n)"

definition builds_new :: "(hash \<Rightarrow> ref \<Rightarrow> 'v pyobject \<times> ref) \<Rightarrow> bool" where
  "builds_new dec =
     (\<forall>hash n. n \<le> oid (fst (dec hash n)) \<and> oid (fst (dec hash n)) < snd (dec hash n))"

record 'v ObjectRedis =
  r :: StrictRedis
  decode :: "hash \<Rightarrow> ref \<Rightarrow> 'v pyobject \<times> ref"
  caching :: bool
  cache :: "key \<rightharpoonup> 'v pyobject"
  truth :: "'v \<Rightarrow> bool"
  next_id :: ref

definition ObjectRedis_init ::
    "StrictRedis \<Rightarrow> (hash \<Rightarrow> ref \<Rightarrow> 'v pyobject \<times> ref) \<Rightarrow> bool \<Rightarrow> ('v \<Rightarrow> bool)
      \<Rightarrow> 'v ObjectRedis" where
  "ObjectRedis_init db dec c tr =
     \<lparr>r = db, decode = dec, caching = c, cache = Map.empty, truth = tr, next_id = 0\<rparr>"

definition py_bool :: "('v \<Rightarrow> bool) \<Rightarrow> 'v pyobject option \<Rightarrow> bool" where
  "py_bool tr object = (case object of None \<Rightarrow> False | Some ob \<Rightarrow> tr (val ob))"

definition destroy :: "ref \<Rightarrow> 'v ObjectRedis \<Rightarrow> 'v ObjectRedis" where
  "destroy i self =
     self\<lparr>cache := (\<lambda>k. case cache self k of
                            None \<Rightarrow> None
                          | Some ob \<Rightarrow> if oid ob = i then None else Some ob)\<rparr>"

definition oget :: "key \<Rightarrow> 'v ObjectRedis \<Rightarrow> 'v pyobject option \<times> 'v ObjectRedis" where
  "oget k self =
     (let object = (if caching self then cache self k else None)
      in if \<not> py_bool (truth self) object
         then (case hgetall k (r self) of
                 (hash, db) \<Rightarrow>
                   (let self1 = self\<lparr>r := db\<rparr>
                    in if hash \<noteq> []
                       then (case decode self1 hash (next_id self1) of
                               (ob, n) \<Rightarrow>
                                 (let self2 = self1\<lparr>next_id := n\<rparr>
                                  in if caching self2
                                     then (Some ob, self2\<lparr>cache := (cache self2)(k \<mapsto> ob)\<rparr>)
                                     else (Some ob, self2)))
                       else (object, self1)))
         else (object, self))"

fun omget :: "key list \<Rightarrow> 'v ObjectRedis \<Rightarrow> 'v pyobject option list \<times> 'v ObjectRedis" where
  "omget [] self = ([], self)"
| "omget (k # ks) self =
     (case oget k self of
        (x, self1) \<Rightarrow> (case omget ks self1 of (xs, self2) \<Rightarrow> (x # xs, self2)))"

section \<open>RedisContainer: a Redis set as a read-only mapping\<close>

text \<open>
  A container is the key of a set, \<open>set_key\<close>, and a reference to the \<open>ObjectRedis\<close>, which
  it shares with every other user; the operations therefore take the \<open>ObjectRedis\<close> and
  return it. \<open>sismember\<close> reaches the client through \<open>ObjectRedis.__getattr__\<close>.
  \<open>contains\<close> is \<open>__contains__\<close> and \<open>getitem\<close> is \<open>__getitem__\<close>.
\<close>

record RedisContainer =
  set_key :: key

definition contains :: "RedisContainer \<Rightarrow> key \<Rightarrow> 'v ObjectRedis \<Rightarrow> bool \<times> 'v ObjectRedis" where
  "contains self item ore =
     (case sismember (set_key self) item (r ore) of (b, db) \<Rightarrow> (b, ore\<lparr>r := db\<rparr>))"

definition getitem ::
    "RedisContainer \<Rightarrow> key \<Rightarrow> 'v ObjectRedis
      \<Rightarrow> (error + 'v pyobject option) \<times> 'v ObjectRedis" where
  "getitem self k ore =
     (case contains self k ore of
        (b, ore1) \<Rightarrow>
          if \<not> b then (Inl KeyError, ore1)
          else (case oget k ore1 of (x, ore2) \<Rightarrow> (Inr x, ore2)))"

section \<open>Databases of the examples\<close>

text \<open>
  The database of the module's tests: two ships and the set \<open>ships\<close>; \<open>decode\<close> is a
  constructor, the value of a ship is the hash itself, and a ship is true (its class
  defines neither \<open>__nonzero__\<close> nor \<open>__len__\<close>). \<open>stale_ships\<close> is \<open>ships\<close> after
  \<open>oget('ship:0')\<close>, whose result the caller keeps, and \<open>delete('ship:0')\<close>. In
  \<open>orphan_ships\<close> the set has a member without hash. \<open>fleets\<close> decodes into a class with
  \<open>__len__\<close>, the number in the field \<open>size\<close>: a fleet of size 0 is false. In
  \<open>flagship_only\<close> caching is disabled and \<open>decode\<close> returns the one \<open>flagship\<close>, an object
  that exists already, for every hash.
\<close>

definition ships_db :: StrictRedis where
  "ships_db =
     \<lparr>hashes = (\<lambda>_. [])(''ship:0'' := [(''id'', ''ship:0''), (''type'', ''starfury'')],
                         ''ship:1'' := [(''id'', ''ship:1''), (''type'', ''frazi'')]),
      sets = (\<lambda>_. {||})(''ships'' := {|''ship:0'', ''ship:1''|}),
      commands = []\<rparr>"

definition ships :: "hash ObjectRedis" where
  "ships = ObjectRedis_init ships_db (construct id) True (\<lambda>_. True)"

definition stale_ships :: "hash ObjectRedis" where
  "stale_ships =
     (case oget ''ship:0'' ships of
        (ship, ore) \<Rightarrow> ore\<lparr>r := redis_delete ''ship:0'' (r ore)\<rparr>)"

definition orphan_ships :: "hash ObjectRedis" where
  "orphan_ships =
     ships\<lparr>r := (r ships)\<lparr>sets := (sets (r ships))
                                     (''ships'' := {|''ship:0'', ''ship:1'', ''ship:2''|})\<rparr>\<rparr>"

definition fleets_db :: StrictRedis where
  "fleets_db =
     \<lparr>hashes = (\<lambda>_. [])(''fleet:0'' := [(''name'', ''home''), (''size'', ''0'')]),
      sets = (\<lambda>_. {||}),
      commands = []\<rparr>"

definition fleets :: "hash ObjectRedis" where
  "fleets =
     ObjectRedis_init fleets_db (construct id) True (\<lambda>h. map_of h ''size'' \<noteq> Some ''0'')"

definition flagship :: "hash pyobject" where
  "flagship = \<lparr>oid = 0, val = [(''id'', ''ship:0''), (''type'', ''starfury'')]\<rparr>"

definition flagship_only :: "hash ObjectRedis" where
  "flagship_only =
     (ObjectRedis_init ships_db (\<lambda>hash n. (flagship, n)) False (\<lambda>_. True))\<lparr>next_id := 1\<rparr>"


definition ship :: "nat EventTarget" where
  "ship = add_event_listener (EventTarget_init 7) ''fired'' 1"




section \<open>Properties of Pool\<close>

lemma list_remove_absent:
  "x \<notin> set xs \<Longrightarrow> list_remove xs x = Inl (ValueError ''list.remove(x): x not in list'')"
  by (induction xs) auto

lemma list_remove_present:
  "x \<in> set xs \<Longrightarrow> \<exists>ys. list_remove xs x = Inr ys \<and> mset ys = mset xs - {#x#}"
  by (induction xs) auto

text \<open>
  C7. \<open>finish(task)\<close> for a task that is not tracked raises \<open>ValueError\<close> (the
  invalid-argument condition), the pool is left exactly as it was (same tasks, callback not
  invoked); in particular every \<open>finish\<close> on a pool whose list is already empty fails so.
\<close>

theorem finish_untracked_fails:
  "(task \<notin> set (tasks self) \<longrightarrow>
      finish self task = (Inl (ValueError ''list.remove(x): x not in list''), self))
   \<and> (tasks self = [] \<longrightarrow>
      finish self task = (Inl (ValueError ''list.remove(x): x not in list''), self))"
  by (simp add: finish_def list_remove_absent)

theorem finish_untracked_fails_witness:
  "(3::nat) \<notin> set (tasks \<lparr>tasks = [1, 2], fired = 0\<rparr>)
   \<and> finish \<lparr>tasks = [1, 2], fired = 0\<rparr> (3::nat)
       = (Inl (ValueError ''list.remove(x): x not in list''), \<lparr>tasks = [1, 2], fired = 0\<rparr>)
   \<and> tasks (snd (finish_all (Pool_init [1, 2]) [1, 2::nat])) = []
   \<and> fired (snd (finish_all (Pool_init [1, 2]) [1, 2::nat])) = 1
   \<and> finish (snd (finish_all (Pool_init [1, 2]) [1, 2::nat])) 1
       = (Inl (ValueError ''list.remove(x): x not in list''),
          snd (finish_all (Pool_init [1, 2]) [1, 2::nat]))"
  using finish_untracked_fails [of 3 "\<lparr>tasks = [1, 2], fired = 0\<rparr>"]
    finish_untracked_fails [of 1 "snd (finish_all (Pool_init [1, 2]) [1, 2::nat])"]
  by (simp add: finish_def Pool_init_def pool_done_def callback_def)

lemma finish_all_Cons:
  "snd (finish_all self (t # ts)) = snd (finish_all (snd (finish self t)) ts)"
  "fst (finish_all self (t # ts)) = fst (finish self t) # fst (finish_all (snd (finish self t)) ts)"
  by (simp_all split: prod.splits)

lemma finish_fired:
  "finish self task = (res, self') \<Longrightarrow>
     fired self' = fired self + (if tasks self \<noteq> [] \<and> tasks self' = [] then 1 else 0)"
  by (cases "tasks self") (auto simp: finish_def pool_done_def callback_def Let_def split: sum.splits if_splits)


lemma pool_inv_init: "pool_inv (Pool_init ts)"
  by (simp add: pool_inv_def Pool_init_def pool_done_def callback_def Let_def)

lemma pool_inv_finish: "pool_inv self \<Longrightarrow> pool_inv (snd (finish self task))"
  by (auto simp: pool_inv_def finish_def pool_done_def callback_def Let_def split: sum.splits)

lemma pool_inv_finish_all: "pool_inv self \<Longrightarrow> pool_inv (snd (finish_all self ts))"
proof (induction ts arbitrary: self)
  case Nil
  then show ?case by simp
next
  case (Cons t ts)
  from Cons.prems have "pool_inv (snd (finish self t))" by (rule pool_inv_finish)
  then have "pool_inv (snd (finish_all (snd (finish self t)) ts))" by (rule Cons.IH)
  then show ?case by (simp only: finish_all_Cons)
qed

lemma finish_tracked:
  "task \<in> set (tasks self) \<Longrightarrow>
     fst (finish self task) = Inr () \<and> mset (tasks (snd (finish self task))) = mset (tasks self) - {#task#}"
  using list_remove_present [of task "tasks self"]
  by (auto simp: finish_def pool_done_def callback_def Let_def)

lemma finish_all_perm:
  "mset fs = mset (tasks self) \<Longrightarrow>
     tasks (snd (finish_all self fs)) = [] \<and> fst (finish_all self fs) = replicate (length fs) (Inr ())"
proof (induction fs arbitrary: self)
  case Nil
  then show ?case by simp
next
  case (Cons t fs)
  from Cons.prems have mem: "t \<in> set (tasks self)"
    by (metis list.set_intros(1) set_mset_mset)
  from finish_tracked [OF mem] Cons.prems
  have ok: "fst (finish self t) = Inr ()" and m: "mset fs = mset (tasks (snd (finish self t)))"
    by (auto simp flip: Cons.prems)
  from Cons.IH [OF m] ok show ?case by (simp add: finish_all_Cons del: finish_all.simps)
qed

lemma finish_empty: "tasks self = [] \<Longrightarrow> snd (finish self t) = self"
  by (simp add: finish_def)

lemma finish_all_empty: "tasks self = [] \<Longrightarrow> snd (finish_all self fs) = self"
proof (induction fs)
  case Nil
  show ?case by simp
next
  case (Cons t fs)
  then show ?case by (simp add: finish_all_Cons finish_empty del: finish_all.simps)
qed

lemma finish_all_fired:
  "fired (snd (finish_all self fs)) =
     fired self + (if tasks self \<noteq> [] \<and> tasks (snd (finish_all self fs)) = [] then 1 else 0)"
proof (induction fs arbitrary: self)
  case Nil
  then show ?case by simp
next
  case (Cons t fs)
  obtain res self1 where f: "finish self t = (res, self1)" by (cases "finish self t")
  show ?case
  proof (cases "tasks self = []")
    case True
    then have "self1 = self" using f finish_empty [of self t] by simp
    with True Cons.IH [of self] f show ?thesis by (simp add: finish_all_Cons del: finish_all.simps)
  next
    case False
    with finish_fired [OF f] Cons.IH [of self1] f finish_all_empty [of self1 fs] show ?thesis
      by (cases "tasks self1 = []") (simp_all add: finish_all_Cons del: finish_all.simps)
  qed
qed

lemma finish_all_replicate:
  "k \<le> count (mset (tasks self)) h \<Longrightarrow>
     fst (finish_all self (replicate k h)) = replicate k (Inr ())
     \<and> mset (tasks (snd (finish_all self (replicate k h)))) = mset (tasks self) - replicate_mset k h"
proof (induction k arbitrary: self)
  case 0
  then show ?case by simp
next
  case (Suc k)
  then have mem: "h \<in> set (tasks self)"
    by (metis Suc_le_lessD count_greater_zero_iff set_mset_mset less_nat_zero_code not_gr_zero)
  note ft = finish_tracked [OF mem]
  from Suc.prems ft have "k \<le> count (mset (tasks (snd (finish self h)))) h" by simp
  from Suc.IH [OF this] ft show ?case
    by (simp add: finish_all_Cons del: finish_all.simps)
qed

lemma finish_all_append:
  "finish_all self (xs @ ys) =
     (fst (finish_all self xs) @ fst (finish_all (snd (finish_all self xs)) ys),
      snd (finish_all (snd (finish_all self xs)) ys))"
  by (induction xs arbitrary: self) (simp_all split: prod.splits)

text \<open>
  C2. The callback is invoked during construction exactly when the initial collection is
  empty; a \<open>finish\<close> call invokes it exactly when that call takes the collection from
  non-empty to empty; over any sequence of \<open>finish\<close> calls on a new pool, failed ones
  included, it has been invoked once if the collection is empty and never otherwise, so
  never twice; and when the calls are the initial tasks in any order, every call succeeds
  and the callback has been invoked exactly once.
\<close>

theorem pool_callback_once:
  "fired (Pool_init ts) = (if ts = [] then 1 else 0)
   \<and> fired (snd (finish self task)) =
       fired self + (if tasks self \<noteq> [] \<and> tasks (snd (finish self task)) = [] then 1 else 0)
   \<and> fired (snd (finish_all (Pool_init ts) fs)) =
       (if tasks (snd (finish_all (Pool_init ts) fs)) = [] then 1 else 0)
   \<and> (mset fs = mset ts \<longrightarrow>
        fst (finish_all (Pool_init ts) fs) = replicate (length fs) (Inr ())
        \<and> tasks (snd (finish_all (Pool_init ts) fs)) = []
        \<and> fired (snd (finish_all (Pool_init ts) fs)) = 1)"
proof -
  have init: "fired (Pool_init ts) = (if ts = [] then 1 else 0)"
    by (simp add: Pool_init_def pool_done_def callback_def Let_def)
  have step: "fired (snd (finish self task)) =
       fired self + (if tasks self \<noteq> [] \<and> tasks (snd (finish self task)) = [] then 1 else 0)"
    using finish_fired [of self task "fst (finish self task)" "snd (finish self task)"] by simp
  have inv: "pool_inv (snd (finish_all (Pool_init ts) fs))"
    by (rule pool_inv_finish_all) (rule pool_inv_init)
  then have total: "fired (snd (finish_all (Pool_init ts) fs)) =
       (if tasks (snd (finish_all (Pool_init ts) fs)) = [] then 1 else 0)"
    by (simp add: pool_inv_def)
  have tasks_init: "tasks (Pool_init ts) = ts"
    by (simp add: Pool_init_def pool_done_def callback_def Let_def)
  have perm: "mset fs = mset ts \<longrightarrow>
        fst (finish_all (Pool_init ts) fs) = replicate (length fs) (Inr ())
        \<and> tasks (snd (finish_all (Pool_init ts) fs)) = []
        \<and> fired (snd (finish_all (Pool_init ts) fs)) = 1"
    using finish_all_perm [of fs "Pool_init ts"] total tasks_init by simp
  from init step total perm show ?thesis by blast
qed

theorem pool_callback_once_witness:
  "mset [2, 1, 3] = mset [1, 2, 3::nat]
   \<and> fired (Pool_init [1, 2, 3::nat]) = 0
   \<and> fired (snd (finish_all (Pool_init [1, 2, 3::nat]) [2, 1])) = 0
   \<and> fst (finish_all (Pool_init [1, 2, 3::nat]) [2, 1, 3]) = [Inr (), Inr (), Inr ()]
   \<and> tasks (snd (finish_all (Pool_init [1, 2, 3::nat]) [2, 1, 3])) = []
   \<and> fired (snd (finish_all (Pool_init [1, 2, 3::nat]) [2, 1, 3])) = 1
   \<and> fired (Pool_init ([]::nat list)) = 1"
  using pool_callback_once [of "[1, 2, 3::nat]" _ _ "[2, 1, 3]"]
    pool_callback_once [of "[]::nat list" _ _ "[]"]
  by (simp add: finish_def Pool_init_def pool_done_def callback_def Let_def numeral_3_eq_3)

text \<open>
  C10. The tasks are a list with duplicates: when the handle \<open>h\<close> occurs \<open>n\<close> times,
  the first \<open>k \<le> n\<close> calls \<open>finish(h)\<close> all succeed and remove \<open>k\<close> occurrences, nothing
  else; as long as \<open>k < n\<close> the collection is not empty and the callback has not been
  invoked by these calls; the callback is invoked by them exactly when they empty the
  collection; and call number \<open>n + 1\<close> fails with \<open>ValueError\<close>.
\<close>

theorem pool_list_semantics:
  assumes "count (mset (tasks self)) h = n" and "k \<le> n"
  shows "fst (finish_all self (replicate k h)) = replicate k (Inr ())
   \<and> mset (tasks (snd (finish_all self (replicate k h)))) = mset (tasks self) - replicate_mset k h
   \<and> (k < n \<longrightarrow> tasks (snd (finish_all self (replicate k h))) \<noteq> []
                \<and> fired (snd (finish_all self (replicate k h))) = fired self)
   \<and> fired (snd (finish_all self (replicate k h))) =
       fired self + (if tasks self \<noteq> [] \<and> tasks (snd (finish_all self (replicate k h))) = []
                     then 1 else 0)
   \<and> fst (finish_all self (replicate (Suc n) h)) =
       replicate n (Inr ()) @ [Inl (ValueError ''list.remove(x): x not in list'')]"
proof -
  from assms have le: "k \<le> count (mset (tasks self)) h" by simp
  note rep = finish_all_replicate [OF le]
  have fired_eq: "fired (snd (finish_all self (replicate k h))) =
       fired self + (if tasks self \<noteq> [] \<and> tasks (snd (finish_all self (replicate k h))) = []
                     then 1 else 0)"
    by (rule finish_all_fired)
  have before: "k < n \<longrightarrow> tasks (snd (finish_all self (replicate k h))) \<noteq> []
                \<and> fired (snd (finish_all self (replicate k h))) = fired self"
  proof
    assume lt: "k < n"
    from rep assms lt
    have "count (mset (tasks (snd (finish_all self (replicate k h))))) h = n - k" by simp
    with lt have ne: "tasks (snd (finish_all self (replicate k h))) \<noteq> []" by auto
    with fired_eq show "tasks (snd (finish_all self (replicate k h))) \<noteq> []
                \<and> fired (snd (finish_all self (replicate k h))) = fired self" by simp
  qed
  from assms have "n \<le> count (mset (tasks self)) h" by simp
  note repn = finish_all_replicate [OF this]
  from repn assms
  have "count (mset (tasks (snd (finish_all self (replicate n h))))) h = 0" by simp
  then have "h \<notin> set (tasks (snd (finish_all self (replicate n h))))"
    by (metis count_eq_zero_iff set_mset_mset)
  then have "fst (finish (snd (finish_all self (replicate n h))) h)
      = Inl (ValueError ''list.remove(x): x not in list'')"
    by (simp add: finish_def list_remove_absent)
  then have last: "fst (finish_all (snd (finish_all self (replicate n h))) [h])
      = [Inl (ValueError ''list.remove(x): x not in list'')]"
    by (simp add: finish_all_Cons del: finish_all.simps(2))
  have "replicate (Suc n) h = replicate n h @ [h]"
    by (simp add: replicate_append_same)
  then have "fst (finish_all self (replicate (Suc n) h)) =
       fst (finish_all self (replicate n h))
       @ fst (finish_all (snd (finish_all self (replicate n h))) [h])"
    by (simp only: finish_all_append fst_conv)
  with repn last have over: "fst (finish_all self (replicate (Suc n) h)) =
       replicate n (Inr ()) @ [Inl (ValueError ''list.remove(x): x not in list'')]"
    by simp
  from rep before fired_eq over show ?thesis by blast
qed

theorem pool_list_semantics_witness:
  "count (mset (tasks (Pool_init [7, 7::nat]))) 7 = 2 \<and> (1::nat) \<le> 2
   \<and> fst (finish_all (Pool_init [7, 7::nat]) [7]) = [Inr ()]
   \<and> tasks (snd (finish_all (Pool_init [7, 7::nat]) [7])) = [7]
   \<and> fired (snd (finish_all (Pool_init [7, 7::nat]) [7])) = 0
   \<and> fired (snd (finish_all (Pool_init [7, 7::nat]) [7, 7])) = 1
   \<and> fst (finish_all (Pool_init [7, 7::nat]) [7, 7, 7]) =
       [Inr (), Inr (), Inl (ValueError ''list.remove(x): x not in list'')]"
  using pool_list_semantics [of "Pool_init [7, 7::nat]" 7 2 1]
  by (simp add: finish_def Pool_init_def pool_done_def callback_def Let_def)

section \<open>Properties of ObjectRedis\<close>

lemmas oget_defs = oget_def hgetall_def py_bool_def Let_def split_def

lemma oget_caching [simp]: "caching (snd (oget k self)) = caching self"
  by (simp add: oget_defs split: option.splits)

lemma oget_hashes [simp]: "hashes (r (snd (oget k self))) = hashes (r self)"
  by (simp add: oget_defs split: option.splits)

lemma oget_truth [simp]: "truth (snd (oget k self)) = truth self"
  by (simp add: oget_defs split: option.splits)

lemma oget_decode [simp]: "decode (snd (oget k self)) = decode self"
  by (simp add: oget_defs split: option.splits)

lemma oget_cache_absent:
  "hashes (r self) k' = [] \<Longrightarrow> cache self k' = None \<Longrightarrow> cache (snd (oget k self)) k' = None"
  by (auto simp: oget_defs split: option.splits)

lemma omget_Cons:
  "fst (omget (k # ks) self) = fst (oget k self) # fst (omget ks (snd (oget k self)))"
  "snd (omget (k # ks) self) = snd (omget ks (snd (oget k self)))"
  by (simp_all split: prod.splits)

lemma omget_caching [simp]: "caching (snd (omget ks self)) = caching self"
proof (induction ks arbitrary: self)
  case Nil
  show ?case by simp
next
  case (Cons k ks)
  then show ?case by (simp add: omget_Cons del: omget.simps(2))
qed

lemma omget_hashes [simp]: "hashes (r (snd (omget ks self))) = hashes (r self)"
proof (induction ks arbitrary: self)
  case Nil
  show ?case by simp
next
  case (Cons k ks)
  then show ?case by (simp add: omget_Cons del: omget.simps(2))
qed

lemma omget_cache_absent:
  "hashes (r self) k' = [] \<Longrightarrow> cache self k' = None \<Longrightarrow> cache (snd (omget ks self)) k' = None"
proof (induction ks arbitrary: self)
  case Nil
  then show ?case by simp
next
  case (Cons k ks)
  from Cons.prems have "cache (snd (oget k self)) k' = None" by (simp add: oget_cache_absent)
  with Cons.prems Cons.IH [of "snd (oget k self)"] show ?case
    by (simp add: omget_Cons del: omget.simps(2))
qed

lemma omget_length: "length (fst (omget ks self)) = length ks"
proof (induction ks arbitrary: self)
  case Nil
  show ?case by simp
next
  case (Cons k ks)
  then show ?case by (simp add: omget_Cons del: omget.simps(2))
qed

lemma omget_nth:
  "i < length ks \<Longrightarrow>
     fst (omget ks self) ! i = fst (oget (ks ! i) (snd (omget (take i ks) self)))"
proof (induction ks arbitrary: self i)
  case Nil
  then show ?case by simp
next
  case (Cons k ks)
  show ?case
  proof (cases i)
    case 0
    then show ?thesis by (simp add: omget_Cons del: omget.simps(2))
  next
    case (Suc j)
    with Cons.prems have "j < length ks" by simp
    from Cons.IH [OF this, of "snd (oget k self)"] Suc show ?thesis
      by (simp add: omget_Cons del: omget.simps(2))
  qed
qed

lemma oget_cache_kept:
  "hashes (r self) k' = [] \<Longrightarrow> cache (snd (oget k self)) k' = cache self k'"
  by (auto simp: oget_defs split: option.splits)

lemma omget_cache_kept:
  "hashes (r self) k' = [] \<Longrightarrow> cache (snd (omget ks self)) k' = cache self k'"
proof (induction ks arbitrary: self)
  case Nil
  then show ?case by simp
next
  case (Cons k ks)
  from Cons.prems Cons.IH [of "snd (oget k self)"] show ?case
    by (simp add: omget_Cons oget_cache_kept del: omget.simps(2))
qed

lemma oget_cached_returned:
  "hashes (r self) k = [] \<Longrightarrow> caching self \<Longrightarrow> cache self k = Some ob \<Longrightarrow>
     fst (oget k self) = Some ob"
  by (simp add: oget_defs)

lemma omget_cached_returned:
  assumes "i < length ks" and "hashes (r self) (ks ! i) = []"
    and "caching self" and "cache self (ks ! i) = Some ob"
  shows "fst (omget ks self) ! i = Some ob"
proof -
  let ?s = "snd (omget (take i ks) self)"
  have "hashes (r ?s) (ks ! i) = []" using assms(2) by simp
  moreover have "caching ?s" using assms(3) by simp
  moreover have "cache ?s (ks ! i) = Some ob"
    using assms(2,4) by (simp add: omget_cache_kept)
  ultimately have "fst (oget (ks ! i) ?s) = Some ob" by (rule oget_cached_returned)
  with omget_nth [OF assms(1), of self] show ?thesis by simp
qed

lemma oget_absent:
  "hashes (r self) k = [] \<Longrightarrow> (caching self \<longrightarrow> cache self k = None) \<Longrightarrow> fst (oget k self) = None"
  by (auto simp: oget_defs split: option.splits)

lemma omget_absent:
  assumes "i < length ks" and "hashes (r self) (ks ! i) = []"
    and "caching self \<longrightarrow> cache self (ks ! i) = None"
  shows "fst (omget ks self) ! i = None"
proof -
  let ?s = "snd (omget (take i ks) self)"
  have "hashes (r ?s) (ks ! i) = []" using assms(2) by simp
  moreover have "caching ?s \<longrightarrow> cache ?s (ks ! i) = None"
    using assms(2,3) by (simp add: omget_cache_absent)
  ultimately have "fst (oget (ks ! i) ?s) = None" by (rule oget_absent)
  with omget_nth [OF assms(1), of self] show ?thesis by simp
qed

lemmas example_defs = ships_db_def ships_def stale_ships_def orphan_ships_def fleets_db_def
  fleets_def flagship_def flagship_only_def ObjectRedis_init_def redis_delete_def construct_def

text \<open>
  With caching enabled, a second \<open>oget\<close> for a key returns the object of the first, and
  sends no command, when that object is true.
\<close>

lemma oget_cached_identical:
  assumes "caching self" and "oget k self = (Some ob, self1)" and "truth self (val ob)"
  shows "oget k self1 = (Some ob, self1)"
proof -
  from assms have c: "cache self1 k = Some ob"
    by (auto simp: oget_defs split: option.splits if_splits)
  from assms(2) have "self1 = snd (oget k self)" by simp
  then have "caching self1 = caching self" and "truth self1 = truth self" by simp_all
  with assms c show ?thesis by (simp add: oget_defs)
qed

text \<open>
  Once the object is destroyed its cache entry is gone, and the next \<open>oget\<close> for a key
  with a hash decodes a new object.
\<close>

lemma oget_after_destroy:
  assumes "caching self" and "oget k self = (Some ob, self1)" and "hashes (r self) k \<noteq> []"
  shows "fst (oget k (destroy (oid ob) self1))
    = Some (fst (decode self (hashes (r self) k) (next_id self1)))"
proof -
  from assms have c: "cache self1 k = Some ob"
    by (auto simp: oget_defs split: option.splits if_splits)
  from assms(2) have "self1 = snd (oget k self)" by simp
  then have "caching self1 = caching self" and "hashes (r self1) = hashes (r self)"
    and "decode self1 = decode self" by simp_all
  with assms c show ?thesis by (simp add: oget_defs destroy_def)
qed

text \<open>
  C1. \<open>oget\<close> tests the cached object with \<open>not object\<close>, so a cached object that is false
  counts as missing: for the fleet of size 0 the second \<open>oget\<close>, with caching enabled and
  the first object still referenced, sends a second \<open>HGETALL\<close> and returns a new object
  (identity 1, not 0).
\<close>

theorem oget_falsy_object_refetched:
  "fst (oget ''fleet:0'' fleets) = Some \<lparr>oid = 0, val = [(''name'', ''home''), (''size'', ''0'')]\<rparr>
   \<and> fst (oget ''fleet:0'' (snd (oget ''fleet:0'' fleets)))
       = Some \<lparr>oid = 1, val = [(''name'', ''home''), (''size'', ''0'')]\<rparr>
   \<and> commands (r (snd (oget ''fleet:0'' (snd (oget ''fleet:0'' fleets)))))
       = [HGETALL ''fleet:0'', HGETALL ''fleet:0'']"
  by (simp add: example_defs oget_defs)

text \<open>
  With caching disabled \<open>oget\<close> returns what \<open>decode\<close> returns. When \<open>decode\<close> hands out
  the flagship for every hash, two calls for \<open>ship:0\<close>, a key present in the store, return
  the identical object; and two calls for \<open>ship:7\<close>, a key without hash, both return
  \<open>None\<close>.
\<close>

theorem oget_uncached_shared_counterexample:
  "\<not> caching flagship_only
   \<and> hashes (r flagship_only) ''ship:0'' \<noteq> []
   \<and> fst (oget ''ship:0'' flagship_only) = Some flagship
   \<and> fst (oget ''ship:0'' (snd (oget ''ship:0'' flagship_only))) = Some flagship
   \<and> fst (oget ''ship:7'' flagship_only) = None
   \<and> fst (oget ''ship:7'' (snd (oget ''ship:7'' flagship_only))) = None"
  by (simp add: example_defs oget_defs)

text \<open>
  C5, amended. With caching disabled every \<open>oget\<close> sends \<open>HGETALL\<close>, leaves the cache as it
  is, and returns what it would return with any other cache content: \<open>None\<close> for a key
  without hash, and for a key with a hash the object that a new call of \<open>decode\<close> returns.
  When \<open>decode\<close> builds a new object on every call, two \<open>oget\<close> calls for a key with a hash
  return objects of different identity; when \<open>decode\<close> is a constructor of the value
  \<open>f hash\<close>, the two objects have different identities and the same value.
\<close>

theorem oget_uncached:
  assumes "\<not> caching self"
  shows "commands (r (snd (oget k self))) = commands (r self) @ [HGETALL k]
   \<and> cache (snd (oget k self)) = cache self
   \<and> fst (oget k (self\<lparr>cache := c\<rparr>)) = fst (oget k self)
   \<and> (hashes (r self) k = [] \<longrightarrow> fst (oget k self) = None)
   \<and> (hashes (r self) k \<noteq> [] \<longrightarrow>
        fst (oget k self) = Some (fst (decode self (hashes (r self) k) (next_id self))))
   \<and> (hashes (r self) k \<noteq> [] \<and> builds_new (decode self) \<longrightarrow>
        (\<exists>a b. fst (oget k self) = Some a \<and> fst (oget k (snd (oget k self))) = Some b
               \<and> oid a \<noteq> oid b))
   \<and> (hashes (r self) k \<noteq> [] \<and> decode self = construct f \<longrightarrow>
        fst (oget k self) = Some \<lparr>oid = next_id self, val = f (hashes (r self) k)\<rparr>
        \<and> fst (oget k (snd (oget k self)))
            = Some \<lparr>oid = Suc (next_id self), val = f (hashes (r self) k)\<rparr>)"
proof -
  let ?h = "hashes (r self) k"
  let ?n = "snd (decode self ?h (next_id self))"
  have new: "oid (fst (decode self ?h (next_id self))) \<noteq> oid (fst (decode self ?h ?n))"
    if "builds_new (decode self)"
  proof -
    from that have "oid (fst (decode self ?h (next_id self))) < ?n"
      and "?n \<le> oid (fst (decode self ?h ?n))"
      by (simp_all add: builds_new_def)
    then show ?thesis by simp
  qed
  have second: "fst (oget k (snd (oget k self))) = Some (fst (decode self ?h ?n))" if "?h \<noteq> []"
    using assms that by (simp add: oget_defs)
  have first: "fst (oget k self) = Some (fst (decode self ?h (next_id self)))" if "?h \<noteq> []"
    using assms that by (simp add: oget_defs)
  have fresh: "?h \<noteq> [] \<and> builds_new (decode self) \<longrightarrow>
        (\<exists>a b. fst (oget k self) = Some a \<and> fst (oget k (snd (oget k self))) = Some b
               \<and> oid a \<noteq> oid b)"
    using first second new by simp
  have ctor: "?h \<noteq> [] \<and> decode self = construct f \<longrightarrow>
        fst (oget k self) = Some \<lparr>oid = next_id self, val = f ?h\<rparr>
        \<and> fst (oget k (snd (oget k self))) = Some \<lparr>oid = Suc (next_id self), val = f ?h\<rparr>"
    using first second by (simp add: construct_def)
  have rest: "commands (r (snd (oget k self))) = commands (r self) @ [HGETALL k]
   \<and> cache (snd (oget k self)) = cache self
   \<and> fst (oget k (self\<lparr>cache := c\<rparr>)) = fst (oget k self)
   \<and> (?h = [] \<longrightarrow> fst (oget k self) = None)"
    using assms by (simp add: oget_defs)
  from rest first fresh ctor show ?thesis by blast
qed

theorem oget_uncached_witness:
  "\<not> caching (ships\<lparr>caching := False\<rparr>)
   \<and> hashes (r (ships\<lparr>caching := False\<rparr>)) ''ship:0'' \<noteq> []
   \<and> builds_new (decode (ships\<lparr>caching := False\<rparr>))
   \<and> decode (ships\<lparr>caching := False\<rparr>) = construct id
   \<and> fst (oget ''ship:0'' (ships\<lparr>caching := False\<rparr>))
       = Some \<lparr>oid = 0, val = [(''id'', ''ship:0''), (''type'', ''starfury'')]\<rparr>
   \<and> fst (oget ''ship:0'' (snd (oget ''ship:0'' (ships\<lparr>caching := False\<rparr>))))
       = Some \<lparr>oid = 1, val = [(''id'', ''ship:0''), (''type'', ''starfury'')]\<rparr>
   \<and> cache (snd (oget ''ship:0'' (ships\<lparr>caching := False\<rparr>))) ''ship:0'' = None
   \<and> hashes (r (ships\<lparr>caching := False\<rparr>)) ''ship:7'' = []
   \<and> fst (oget ''ship:7'' (ships\<lparr>caching := False\<rparr>)) = None"
proof -
  have b: "builds_new (construct (id :: hash \<Rightarrow> hash))"
    by (simp add: builds_new_def construct_def)
  have d: "decode (ships\<lparr>caching := False\<rparr>) = construct id"
    by (simp add: ships_def ObjectRedis_init_def)
  from b d oget_uncached [of "ships\<lparr>caching := False\<rparr>" "''ship:0''" _ id]
    oget_uncached [of "ships\<lparr>caching := False\<rparr>" "''ship:7''"]
  show ?thesis by (simp add: example_defs oget_defs)
qed

text \<open>
  After \<open>delete('ship:0')\<close> the key is missing from the store, and \<open>omget\<close> still returns the
  cached ship in its slot.
\<close>

theorem omget_stale_cache_counterexample:
  "hashes (r stale_ships) ''ship:0'' = []
   \<and> fst (omget [''ship:0''] stale_ships)
       = [Some \<lparr>oid = 0, val = [(''id'', ''ship:0''), (''type'', ''starfury'')]\<rparr>]
   \<and> fst (omget [''ship:0''] stale_ships) \<noteq> [None]"
  by (simp add: example_defs oget_defs)

text \<open>
  C4, amended. \<open>omget(keys)\<close> returns a list as long as \<open>keys\<close> whose \<open>i\<close>-th element is the
  result of \<open>oget\<close> for the \<open>i\<close>-th key (called after the \<open>oget\<close>s for the keys before it); the
  element is \<open>None\<close> for a key without hash unless caching is enabled and the cache holds an
  object for the key, and in that case the element is that cached object.
\<close>

theorem omget_positional:
  "length (fst (omget ks self)) = length ks
   \<and> (\<forall>i<length ks.
         fst (omget ks self) ! i = fst (oget (ks ! i) (snd (omget (take i ks) self))))
   \<and> (\<forall>i<length ks.
         hashes (r self) (ks ! i) = [] \<and> (caching self \<longrightarrow> cache self (ks ! i) = None)
         \<longrightarrow> fst (omget ks self) ! i = None)
   \<and> (\<forall>i<length ks. \<forall>ob.
         hashes (r self) (ks ! i) = [] \<and> caching self \<and> cache self (ks ! i) = Some ob
         \<longrightarrow> fst (omget ks self) ! i = Some ob)"
  using omget_length [of ks self] omget_nth [of _ ks self] omget_absent [of _ ks self]
    omget_cached_returned [of _ ks self]
  by blast

theorem omget_positional_witness:
  "length (fst (omget [''ship:0'', ''ship:7'', ''ship:1''] ships)) = 3
   \<and> (1::nat) < length [''ship:0'', ''ship:7'', ''ship:1'']
   \<and> hashes (r ships) ([''ship:0'', ''ship:7'', ''ship:1''] ! 1) = []
   \<and> cache ships ([''ship:0'', ''ship:7'', ''ship:1''] ! 1) = None
   \<and> fst (omget [''ship:0'', ''ship:7'', ''ship:1''] ships) ! 1 = None
   \<and> fst (omget [''ship:0'', ''ship:7'', ''ship:1''] ships)
       = [Some \<lparr>oid = 0, val = [(''id'', ''ship:0''), (''type'', ''starfury'')]\<rparr>,
          None,
          Some \<lparr>oid = 1, val = [(''id'', ''ship:1''), (''type'', ''frazi'')]\<rparr>]
   \<and> (1::nat) < length [''ship:1'', ''ship:0'']
   \<and> hashes (r stale_ships) ([''ship:1'', ''ship:0''] ! 1) = []
   \<and> caching stale_ships
   \<and> cache stale_ships ([''ship:1'', ''ship:0''] ! 1)
       = Some \<lparr>oid = 0, val = [(''id'', ''ship:0''), (''type'', ''starfury'')]\<rparr>
   \<and> fst (omget [''ship:1'', ''ship:0''] stale_ships) ! 1
       = Some \<lparr>oid = 0, val = [(''id'', ''ship:0''), (''type'', ''starfury'')]\<rparr>"
  using omget_positional [of "[''ship:0'', ''ship:7'', ''ship:1'']" ships]
    omget_positional [of "[''ship:1'', ''ship:0'']" stale_ships]
  by (simp add: example_defs oget_defs)

section \<open>Properties of RedisContainer\<close>

text \<open>
  \<open>ship:0\<close> is a member of the set and has no hash, and the container returns the cached
  ship, not \<open>None\<close>.
\<close>

theorem getitem_stale_cache_counterexample:
  "''ship:0'' |\<in>| sets (r stale_ships) ''ships''
   \<and> hashes (r stale_ships) ''ship:0'' = []
   \<and> fst (getitem \<lparr>set_key = ''ships''\<rparr> ''ship:0'' stale_ships)
       = Inr (Some \<lparr>oid = 0, val = [(''id'', ''ship:0''), (''type'', ''starfury'')]\<rparr>)
   \<and> fst (getitem \<lparr>set_key = ''ships''\<rparr> ''ship:0'' stale_ships) \<noteq> Inr None"
  by (simp add: example_defs oget_defs getitem_def contains_def sismember_def)

text \<open>
  C3, amended. \<open>__getitem__\<close> raises \<open>KeyError\<close> if and only if the key is not a member of
  the set; for a member it returns what \<open>oget\<close> returns, which is \<open>None\<close>, and not the
  \<open>KeyError\<close>, for a member without hash unless caching is enabled and the cache holds an
  object for the key.
\<close>

theorem getitem_member:
  "(fst (getitem c k ore) = Inl KeyError \<longleftrightarrow> k |\<notin>| sets (r ore) (set_key c))
   \<and> (isl (fst (getitem c k ore)) \<longleftrightarrow> k |\<notin>| sets (r ore) (set_key c))
   \<and> (k |\<in>| sets (r ore) (set_key c) \<longrightarrow>
        fst (getitem c k ore) = Inr (fst (oget k (snd (contains c k ore)))))
   \<and> (k |\<in>| sets (r ore) (set_key c) \<and> hashes (r ore) k = []
        \<and> (caching ore \<longrightarrow> cache ore k = None) \<longrightarrow>
        fst (getitem c k ore) = Inr None)"
proof -
  let ?ore1 = "snd (contains c k ore)"
  have c1: "fst (contains c k ore) = (k |\<in>| sets (r ore) (set_key c))"
    by (simp add: contains_def sismember_def)
  have g: "fst (getitem c k ore) =
      (if k |\<in>| sets (r ore) (set_key c) then Inr (fst (oget k ?ore1)) else Inl KeyError)"
    using c1 by (cases "contains c k ore") (auto simp: getitem_def split: prod.splits)
  have same: "hashes (r ?ore1) = hashes (r ore)" "caching ?ore1 = caching ore"
    "cache ?ore1 = cache ore"
    by (simp_all add: contains_def sismember_def)
  have absent: "hashes (r ore) k = [] \<and> (caching ore \<longrightarrow> cache ore k = None) \<longrightarrow>
      fst (oget k ?ore1) = None"
    using oget_absent [of ?ore1 k] same by simp
  from g absent show ?thesis by auto
qed

theorem getitem_member_witness:
  "''ship:0'' |\<in>| sets (r ships) (set_key \<lparr>set_key = ''ships''\<rparr>)
   \<and> fst (getitem \<lparr>set_key = ''ships''\<rparr> ''ship:0'' ships)
       = Inr (Some \<lparr>oid = 0, val = [(''id'', ''ship:0''), (''type'', ''starfury'')]\<rparr>)
   \<and> ''foo'' |\<notin>| sets (r ships) (set_key \<lparr>set_key = ''ships''\<rparr>)
   \<and> fst (getitem \<lparr>set_key = ''ships''\<rparr> ''foo'' ships) = Inl KeyError
   \<and> ''ship:2'' |\<in>| sets (r orphan_ships) (set_key \<lparr>set_key = ''ships''\<rparr>)
   \<and> hashes (r orphan_ships) ''ship:2'' = []
   \<and> cache orphan_ships ''ship:2'' = None
   \<and> fst (getitem \<lparr>set_key = ''ships''\<rparr> ''ship:2'' orphan_ships) = Inr None"
  using getitem_member [of "\<lparr>set_key = ''ships''\<rparr>" "''ship:0''" ships]
    getitem_member [of "\<lparr>set_key = ''ships''\<rparr>" "''foo''" ships]
    getitem_member [of "\<lparr>set_key = ''ships''\<rparr>" "''ship:2''" orphan_ships]
  by (simp add: example_defs oget_defs getitem_def contains_def sismember_def)

section \<open>Properties of EventTarget\<close>






















end
